theory Spec2Isabelle
  imports Complex_Main "HOL-Library.Log_Nat"
begin

section \<open>The ECG window of \<open>ecg_ui.py\<close>: data model\<close>

text \<open>
  The class \<open>EcgWindow\<close> keeps the whole measurement in its fields; the sample list
  \<open>ecg_data\<close> and the flag \<open>is_measurement_in_progress\<close> are shared with the reading
  thread. The model is one record of the fields the measurement logic reads and writes.
  Widgets appear only through what the logic does to them: the page shown by the stack,
  the role of the universal button, whether the slider and the timer are on, the texts of
  the three labels, the message boxes that were shown and the codes written to the serial
  port. Python integers are unbounded, so samples and counters are \<open>int\<close>.

  A tick of the timer runs on the GUI thread while the reading thread may append to
  \<open>ecg_data\<close>. The model takes the list as it is when the tick starts: a tick is a
  function of one state, and the samples that arrive between two ticks are appended
  between two calls.
\<close>

datatype StackCode = HOME | GRAPH

datatype ButtonCode = BACK | STOP

datatype ErrorCode = NO_ERROR | INVALID_CONTENT | NOT_ENOUGH_DATA

text \<open>\<open>SerialCode\<close>: the two command codes written to the measurement unit.\<close>

definition START_MEASUREMENT :: int where
  "START_MEASUREMENT = 1"

definition STOP_MEASUREMENT :: int where
  "STOP_MEASUREMENT = 2"

text \<open>The exceptions the measurement logic can raise.\<close>

datatype py_error = StatisticsError | ZeroDivisionError | UnboundLocalError

definition display_count :: nat where
  "display_count = 2000"

definition min_ydata_value :: int where
  "min_ydata_value = 0"

definition max_ydata_value :: int where
  "max_ydata_value = 4095"

definition sampling_time :: int where
  "sampling_time = 2"

definition measurement_duration :: int where
  "measurement_duration = 30"

definition time_between_health_data_calculations :: int where
  "time_between_health_data_calculations = 3"

definition r_peak_upper_threshold :: int where
  "r_peak_upper_threshold = 2600"

definition r_peak_lower_threshold :: int where
  "r_peak_lower_threshold = 2000"

section \<open>Python's floating-point operations\<close>

text \<open>
  A Python \<open>float\<close> is an IEEE 754 binary64 number. Every float computed here is
  finite, so a float is modelled by its exact value, a rational, and each operation
  rounds the exact result to the nearest binary64 value, ties to even (\<open>fl\<close>): 53
  significant bits, the spacing never finer than \<open>2 powi -1074\<close> (subnormal numbers).
  The upper end of the exponent range is not modelled: a result of \<open>2 powi 1024\<close> or
  more needs an operand of that size, and the operands here are list lengths, slider
  positions and sums of recorded intervals.
\<close>

type_synonym pyfloat = rat

definition round_half_even :: "rat \<Rightarrow> int" where
  "round_half_even x =
     (let f = \<lfloor>x\<rfloor>; d = x - of_int f in
      if d < 1 / 2 then f else if 1 / 2 < d then f + 1 else if even f then f else f + 1)"

text \<open>\<open>ilog2 x\<close> is the exponent \<open>e\<close> with \<open>2 powi e \<le> x < 2 powi (e + 1)\<close>, for \<open>0 < x\<close>.\<close>

definition ilog2 :: "rat \<Rightarrow> int" where
  "ilog2 x = (case quotient_of x of (p, q) \<Rightarrow>
      (let d = bitlen p - bitlen q in if 2 powi d \<le> x then d else d - 1))"

definition fl :: "rat \<Rightarrow> pyfloat" where
  "fl x = (if x = 0 then 0 else
      (let a = \<bar>x\<bar>; e = max (ilog2 a) (- 1022); u = 2 powi (e - 52) in
       sgn x * of_int (round_half_even (a / u)) * u))"

text \<open>\<open>a / b\<close> on two \<open>int\<close>s: true division, correctly rounded.\<close>

definition py_truediv :: "int \<Rightarrow> int \<Rightarrow> py_error + pyfloat" where
  "py_truediv a b = (if b = 0 then Inl ZeroDivisionError else Inr (fl (of_int a / of_int b)))"

text \<open>\<open>x * y\<close> on floats (an \<open>int\<close> operand is converted first).\<close>

definition py_float_of_int :: "int \<Rightarrow> pyfloat" where
  "py_float_of_int n = fl (of_int n)"

definition py_mul :: "pyfloat \<Rightarrow> pyfloat \<Rightarrow> pyfloat" where
  "py_mul x y = fl (x * y)"

text \<open>\<open>int(x)\<close> truncates towards zero.\<close>

definition py_int :: "pyfloat \<Rightarrow> int" where
  "py_int x = (if 0 \<le> x then \<lfloor>x\<rfloor> else \<lceil>x\<rceil>)"

text \<open>
  \<open>round(x, 1)\<close>: the exact value of \<open>x\<close> rounded to one decimal, ties to even, and
  the float nearest to that decimal.
\<close>

definition py_round1 :: "pyfloat \<Rightarrow> pyfloat" where
  "py_round1 x = fl (of_int (round_half_even (x * 10)) / 10)"

text \<open>\<open>pow(10, -3)\<close> is the float \<open>0.001\<close>.\<close>

definition pow_10_minus_3 :: pyfloat where
  "pow_10_minus_3 = fl (1 / 1000)"

text \<open>
  \<open>statistics.fmean\<close>: \<open>fsum(data) / len(data)\<close>, where \<open>fsum\<close> converts every item
  to a float and rounds their exact sum once; \<open>StatisticsError\<close> on no data.
\<close>

definition fsum :: "int list \<Rightarrow> pyfloat" where
  "fsum xs = fl (sum_list (map py_float_of_int xs))"

definition fmean :: "int list \<Rightarrow> py_error + pyfloat" where
  "fmean xs = (if xs = [] then Inl StatisticsError
               else Inr (fl (fsum xs / of_nat (length xs))))"

text \<open>\<open>xs[a:b]\<close>: a negative bound counts from the end, and both are clipped.\<close>

definition py_slice_bound :: "nat \<Rightarrow> int \<Rightarrow> nat" where
  "py_slice_bound n a = (if a < 0 then nat (max (a + int n) 0) else min (nat a) n)"

definition py_slice :: "'a list \<Rightarrow> int \<Rightarrow> int \<Rightarrow> 'a list" where
  "py_slice xs a b =
     (let lo = py_slice_bound (length xs) a; hi = py_slice_bound (length xs) b
      in take (hi - lo) (drop lo xs))"

section \<open>The state of the window\<close>

text \<open>
  \<open>self.sampling_rate = int(1 / (self.sampling_time * pow(10, -3)))\<close>, which is 500
  (\<open>sampling_rate_eq\<close> below).
\<close>

definition sampling_rate :: int where
  "sampling_rate =
     py_int (fl (1 / py_mul (py_float_of_int sampling_time) pow_10_minus_3))"

definition slider_min_value :: int where
  "slider_min_value = 0"

definition slider_max_value :: int where
  "slider_max_value = 100"

text \<open>
  The text of a label after its default text: nothing, a dash, or a value and its unit
  (\<open>" seconds"\<close> on the countdown, \<open>" second"\<close> on the RR interval, \<open>" beats"\<close>).
\<close>

datatype label = Blank | Dash | Seconds int | Second pyfloat | Beats int

record ecg_window =
  ecg_data :: "int list"
  is_measurement_in_progress :: bool
  ser :: bool
  ydata :: "int list"
  last_processed_index :: nat
  last_time_health_data_calculated :: int
  r_peak_detectable :: bool
  r_peak_intervals :: "int list"
  r_peak_interval_counter :: int
  slider_jump_value :: pyfloat
  slider_value :: int
  slider_shown :: bool
  timer_active :: bool
  stack :: StackCode
  universal_button :: ButtonCode
  countdown_label :: label
  rr_interval_label :: label
  bpm_label :: label
  message_boxes :: "(string \<times> string) list"
  serial_written :: "int list"

text \<open>
  \<open>ser\<close> tells whether \<open>self.ser[0]\<close> holds a port object; \<open>message_boxes\<close> lists
  the title and text of every box shown, \<open>serial_written\<close> the codes written to the
  port. The axis ticks and the drawing of the canvas are left out.
\<close>

definition reset_ydata :: "ecg_window \<Rightarrow> ecg_window" where
  "reset_ydata st =
     st\<lparr>ydata := [min_ydata_value] @ replicate (display_count - 1) max_ydata_value\<rparr>"

definition reset_labels :: "ecg_window \<Rightarrow> ecg_window" where
  "reset_labels st = st\<lparr>countdown_label := Dash, rr_interval_label := Dash, bpm_label := Dash\<rparr>"

text \<open>The fields as \<open>__init__\<close> leaves them, with the module's globals.\<close>

definition init_window :: ecg_window where
  "init_window = reset_ydata
     \<lparr>ecg_data = [], is_measurement_in_progress = False, ser = False, ydata = [],
      last_processed_index = 0, last_time_health_data_calculated = 0,
      r_peak_detectable = True, r_peak_intervals = [], r_peak_interval_counter = 0,
      slider_jump_value = 0, slider_value = 0, slider_shown = False,
      timer_active = False, stack = HOME, universal_button = STOP,
      countdown_label = Blank, rr_interval_label = Blank, bpm_label = Blank,
      message_boxes = [], serial_written = []\<rparr>"

section \<open>The R-peak detector\<close>

text \<open>
  One pass of the body of the \<open>for\<close> loop of \<open>detect_r_peaks\<close>, at index \<open>i\<close>: the
  counter is incremented first, then either a peak is recorded (the detector is armed,
  the sample is above the upper threshold and above its successor) or, in the \<open>elif\<close>,
  a sample below the lower threshold arms the detector again.
\<close>

definition detect_r_peaks_step :: "ecg_window \<Rightarrow> nat \<Rightarrow> ecg_window" where
  "detect_r_peaks_step st i =
     (let c = r_peak_interval_counter st + 1; d = ecg_data st in
      if r_peak_detectable st \<and> d ! i > r_peak_upper_threshold \<and> d ! i > d ! (i + 1)
      then st\<lparr>r_peak_intervals := r_peak_intervals st @ [c * sampling_time],
              r_peak_interval_counter := 0,
              r_peak_detectable := False\<rparr>
      else if d ! i < r_peak_lower_threshold
      then st\<lparr>r_peak_interval_counter := c, r_peak_detectable := True\<rparr>
      else st\<lparr>r_peak_interval_counter := c\<rparr>)"

text \<open>The loop over a list of indices, in order.\<close>

definition detect_r_peaks_loop :: "ecg_window \<Rightarrow> nat list \<Rightarrow> ecg_window" where
  "detect_r_peaks_loop st is = foldl detect_r_peaks_step st is"

text \<open>
  \<open>range(self.last_processed_index, len(self.ecg_data) - 1)\<close>: empty when the list is
  empty or the start is not below the end, as \<open>[a..<b]\<close> is (with \<open>0 - 1 = 0\<close> on
  \<open>nat\<close>).
\<close>

definition scan_range :: "ecg_window \<Rightarrow> nat list" where
  "scan_range st = [last_processed_index st ..< length (ecg_data st) - 1]"

definition detect_r_peaks :: "ecg_window \<Rightarrow> ecg_window" where
  "detect_r_peaks st = detect_r_peaks_loop st (scan_range st)"

text \<open>A pass records a peak when it appends to \<open>r_peak_intervals\<close>.\<close>

definition emits_peak :: "ecg_window \<Rightarrow> nat \<Rightarrow> bool" where
  "emits_peak st i = (r_peak_intervals (detect_r_peaks_step st i) \<noteq> r_peak_intervals st)"

section \<open>Live window, metrics and scrub window\<close>

text \<open>
  \<open>process_fresh_data\<close>: the window drops as many values as arrived since the last
  tick and appends them; then the detector runs, and \<open>last_processed_index\<close> becomes
  the length of the list.
\<close>

definition process_fresh_data :: "ecg_window \<Rightarrow> ecg_window" where
  "process_fresh_data st =
     (let fresh = drop (last_processed_index st) (ecg_data st);
          st1 = st\<lparr>ydata := drop (length fresh) (ydata st) @ fresh\<rparr>;
          st2 = detect_r_peaks st1
      in st2\<lparr>last_processed_index := length (ecg_data st2)\<rparr>)"

text \<open>
  \<open>int(len(self.ecg_data) / self.sampling_rate)\<close>. The divisor is 500, so the division
  does not raise.
\<close>

definition get_elapsed_time :: "ecg_window \<Rightarrow> int" where
  "get_elapsed_time st =
     py_int (fl (of_int (int (length (ecg_data st))) / of_int sampling_rate))"


text \<open>\<open>round(statistics.fmean(self.r_peak_intervals) * pow(10, -3), 1)\<close>\<close>

definition get_rr_interval :: "ecg_window \<Rightarrow> py_error + pyfloat" where
  "get_rr_interval st =
     (case fmean (r_peak_intervals st) of
        Inl e \<Rightarrow> Inl e
      | Inr m \<Rightarrow> Inr (py_round1 (py_mul m pow_10_minus_3)))"

text \<open>\<open>int((len(self.r_peak_intervals) + 1) / self.get_elapsed_time() * 60)\<close>\<close>

definition get_bpm :: "ecg_window \<Rightarrow> py_error + int" where
  "get_bpm st =
     (case py_truediv (int (length (r_peak_intervals st)) + 1) (get_elapsed_time st) of
        Inl e \<Rightarrow> Inl e
      | Inr q \<Rightarrow> Inr (py_int (py_mul q (py_float_of_int 60))))"

definition is_health_data_ready_for_calculation :: "ecg_window \<Rightarrow> bool" where
  "is_health_data_ready_for_calculation st =
     (get_elapsed_time st - last_time_health_data_calculated st
        = time_between_health_data_calculations)"

definition write_serial :: "int \<Rightarrow> ecg_window \<Rightarrow> ecg_window" where
  "write_serial code st =
     (if ser st then st\<lparr>serial_written := serial_written st @ [code]\<rparr> else st)"

definition switch_stack :: "StackCode \<Rightarrow> ecg_window \<Rightarrow> ecg_window" where
  "switch_stack stack_index st = st\<lparr>stack := stack_index\<rparr>"

definition switch_universal_button :: "ButtonCode \<Rightarrow> ecg_window \<Rightarrow> ecg_window" where
  "switch_universal_button button_code st = st\<lparr>universal_button := button_code\<rparr>"

definition show_message_box :: "string \<Rightarrow> string \<Rightarrow> ecg_window \<Rightarrow> ecg_window" where
  "show_message_box title txt st = st\<lparr>message_boxes := message_boxes st @ [(title, txt)]\<rparr>"

definition stop_measurement :: "ecg_window \<Rightarrow> ecg_window" where
  "stop_measurement st =
     switch_universal_button BACK
       ((write_serial STOP_MEASUREMENT (st\<lparr>is_measurement_in_progress := False\<rparr>))
          \<lparr>timer_active := False\<rparr>)"

text \<open>The handler of the bare \<open>except\<close> of \<open>calculate_and_update_label_values\<close>.\<close>

definition signal_processing_error :: "ecg_window \<Rightarrow> ecg_window" where
  "signal_processing_error st =
     show_message_box ''Signal processing error''
       ''The measured signal does not meet the requirements of a real ecg signal.''
       (stop_measurement st)"

text \<open>
  \<open>calculate_and_update_label_values\<close>: the RR label is set before \<open>get_bpm\<close> is
  evaluated, so it stays set when only \<open>get_bpm\<close> raises.
\<close>

definition calculate_and_update_label_values :: "ecg_window \<Rightarrow> ecg_window" where
  "calculate_and_update_label_values st =
     (let elapsed_time = get_elapsed_time st;
          st1 = st\<lparr>countdown_label :=
                     (if is_measurement_in_progress st
                      then Seconds (measurement_duration - elapsed_time) else Dash)\<rparr>
      in if \<not> is_measurement_in_progress st1 \<or> is_health_data_ready_for_calculation st1
         then
           (let st2 = st1\<lparr>last_time_health_data_calculated := elapsed_time\<rparr> in
            case get_rr_interval st2 of
              Inl e \<Rightarrow> signal_processing_error st2
            | Inr rr \<Rightarrow>
                (let st3 = st2\<lparr>rr_interval_label := Second rr\<rparr> in
                 case get_bpm st3 of
                   Inl e \<Rightarrow> signal_processing_error st3
                 | Inr b \<Rightarrow> st3\<lparr>bpm_label := Beats b\<rparr>))
         else st1)"

text \<open>
  \<open>self.slider_jump_value = ecg_data_max_from_index / self.slider_max_value\<close>, a true
  division by 100.
\<close>

definition calculate_slider_jump_value :: "ecg_window \<Rightarrow> ecg_window" where
  "calculate_slider_jump_value st =
     st\<lparr>slider_jump_value :=
          fl (of_int (int (length (ecg_data st)) - int display_count)
              / of_int slider_max_value)\<rparr>"

text \<open>
  The two local variables of \<open>slider_action\<close>, \<open>display_data_from_index\<close> and
  \<open>display_data_to_index\<close>.
\<close>

definition slider_window :: "int \<Rightarrow> ecg_window \<Rightarrow> int \<times> int" where
  "slider_window v st =
     (let display_data_from_index = py_int (py_mul (py_float_of_int v) (slider_jump_value st))
      in if display_data_from_index + int display_count > int (length (ecg_data st))
         then (int (length (ecg_data st)) - int display_count, int (length (ecg_data st)))
         else (display_data_from_index, display_data_from_index + int display_count))"

definition slider_action :: "int \<Rightarrow> ecg_window \<Rightarrow> ecg_window" where
  "slider_action v st =
     (case slider_window v st of
        (display_data_from_index, display_data_to_index) \<Rightarrow>
          st\<lparr>ydata := py_slice (ecg_data st) display_data_from_index display_data_to_index\<rparr>)"

text \<open>
  \<open>initialize_slider\<close>. When \<open>setValue\<close> changes the value, the slider's signal
  runs \<open>slider_action(0)\<close> once more, before the jump value is computed; the call
  that follows writes \<open>ydata\<close> again, so the state is the same.
\<close>

definition initialize_slider :: "ecg_window \<Rightarrow> ecg_window" where
  "initialize_slider st =
     (slider_action 0 (calculate_slider_jump_value (st\<lparr>slider_value := slider_min_value\<rparr>)))
       \<lparr>slider_shown := True\<rparr>"

section \<open>The measurement controller\<close>


definition reset_measurement_data_and_graph_ui :: "ecg_window \<Rightarrow> ecg_window" where
  "reset_measurement_data_and_graph_ui st =
     (reset_labels (reset_ydata
        (st\<lparr>ecg_data := [], r_peak_intervals := [], last_processed_index := 0,
            last_time_health_data_calculated := 0, r_peak_interval_counter := 0,
            r_peak_detectable := True\<rparr>)))
       \<lparr>slider_shown := False\<rparr>"

definition start_measurement :: "ecg_window \<Rightarrow> ecg_window" where
  "start_measurement st =
     (reset_measurement_data_and_graph_ui (write_serial START_MEASUREMENT st))
       \<lparr>timer_active := True, is_measurement_in_progress := True\<rparr>"



definition stop_button_action :: "ecg_window \<Rightarrow> ecg_window" where
  "stop_button_action st = stop_measurement (switch_universal_button BACK st)"

definition back_button_action :: "ecg_window \<Rightarrow> ecg_window" where
  "back_button_action st = switch_stack HOME (switch_universal_button STOP st)"

text \<open>
  What \<open>open\<close> and \<open>readlines\<close> give for the selected file: they raise
  (\<open>Unreadable\<close>), or they give the lines, each with the outcome of
  \<open>int(line.strip())\<close>: \<open>None\<close> where it raises.
\<close>

datatype file_read = Unreadable | Lines "int option list"

text \<open>
  \<open>load_file\<close>. When \<open>open\<close> or \<open>readlines\<close> raises, \<open>file_content\<close> was never
  assigned and \<open>len(file_content)\<close>, which stands after the \<open>try\<close>, raises
  \<open>UnboundLocalError\<close>. When a line does not parse, \<open>file_content\<close> still holds the
  lines read, so its length is the number of lines.
\<close>

definition load_file ::
    "string option \<Rightarrow> file_read \<Rightarrow> ecg_window \<Rightarrow> py_error + (int list option \<times> ecg_window)" where
  "load_file filename_with_path file st =
     (if filename_with_path = None \<or> filename_with_path = Some [] then Inr (None, st)
      else case file of
        Unreadable \<Rightarrow> Inl UnboundLocalError
      | Lines ls \<Rightarrow>
          (let parsed = those ls;
               error_code = (if parsed = None then INVALID_CONTENT else NO_ERROR);
               error_code = (if length ls < display_count then NOT_ENOUGH_DATA else error_code)
           in case error_code of
                NO_ERROR \<Rightarrow> Inr (parsed, st)
              | INVALID_CONTENT \<Rightarrow>
                  Inr (None, show_message_box ''File loading error''
                    ''The selected file is not supported or has invalid content.'' st)
              | NOT_ENOUGH_DATA \<Rightarrow>
                  Inr (None, show_message_box ''File loading error''
                    ''The selected file does not contain enough data.'' st)))"

definition load_measurement :: "int list \<Rightarrow> ecg_window \<Rightarrow> ecg_window" where
  "load_measurement file_content st =
     (let st1 = reset_measurement_data_and_graph_ui st;
          st2 = st1\<lparr>ecg_data := ecg_data st1 @ file_content\<rparr>
      in calculate_and_update_label_values (detect_r_peaks (initialize_slider st2)))"

definition load_button_action ::
    "string option \<Rightarrow> file_read \<Rightarrow> ecg_window \<Rightarrow> py_error + ecg_window" where
  "load_button_action selected_filename_with_path file st =
     (case load_file selected_filename_with_path file st of
        Inl e \<Rightarrow> Inl e
      | Inr (file_content, st1) \<Rightarrow>
          (case file_content of
             None \<Rightarrow> Inr st1
           | Some c \<Rightarrow>
               if c \<noteq> []
               then Inr (switch_stack GRAPH (switch_universal_button BACK (load_measurement c st1)))
               else Inr st1))"

text \<open>
  One turn of the \<open>while True\<close> loop of \<open>read_serial\<close>, on what \<open>readline\<close> gives:
  it raises, it gives nothing, it gives a token that \<open>int\<close> rejects, or a sample. The
  \<open>except\<close> only prints.
\<close>

datatype serial_read = ReadFails | NoData | BadToken | Sample int

definition read_serial_step :: "serial_read \<Rightarrow> ecg_window \<Rightarrow> ecg_window" where
  "read_serial_step r st =
     (if is_measurement_in_progress st \<and> ser st
      then (case r of Sample v \<Rightarrow> st\<lparr>ecg_data := ecg_data st @ [v]\<rparr> | _ \<Rightarrow> st)
      else st)"

text \<open>
  The live-window updates of a measurement, tick after tick: before each tick the
  samples read since the last one are appended.
\<close>

fun feed :: "ecg_window \<Rightarrow> int list list \<Rightarrow> ecg_window" where
  "feed st [] = st"
| "feed st (b # bs) = feed (process_fresh_data (st\<lparr>ecg_data := ecg_data st @ b\<rparr>)) bs"

section \<open>Properties of the floating-point operations\<close>

lemma round_half_even_error: "\<bar>of_int (round_half_even x) - x\<bar> \<le> 1 / 2"
proof -
  define f where "f = \<lfloor>x\<rfloor>"
  define d where "d = x - of_int f"
  have d: "0 \<le> d" "d < 1" unfolding d_def f_def by linarith+
  have x: "x = of_int f + d" by (simp add: d_def)
  have r: "round_half_even x =
      (if d < 1 / 2 then f else if 1 / 2 < d then f + 1 else if even f then f else f + 1)"
    unfolding round_half_even_def Let_def d_def f_def by (rule refl)
  have "\<bar>of_int (round_half_even x) - (of_int f + d)\<bar> \<le> 1 / 2"
    unfolding r using d by (auto simp: abs_if)
  then show ?thesis by (simp add: d_def)
qed

lemma round_half_even_of_int [simp]: "round_half_even (of_int n) = n"
  by (simp add: round_half_even_def Let_def)

lemma ilog2_bounds:
  assumes "0 < x"
  shows "2 powi ilog2 x \<le> x" and "x < 2 powi (ilog2 x + 1)"
proof -
  obtain p q where pq: "quotient_of x = (p, q)" by (cases "quotient_of x")
  then have q: "0 < q" and x: "x = of_int p / of_int q"
    by (simp_all add: quotient_of_denom_pos quotient_of_div)
  with assms have p: "0 < p" by (simp add: zero_less_divide_iff)
  define bp bq where "bp = bitlen p" and "bq = bitlen q"
  from bitlen_bounds [OF p] have p1: "2 ^ nat (bp - 1) \<le> p" and p2: "p < 2 ^ nat bp"
    by (simp_all add: bp_def)
  from bitlen_bounds [OF q] have q1: "2 ^ nat (bq - 1) \<le> q" and q2: "q < 2 ^ nat bq"
    by (simp_all add: bq_def)
  have bp: "1 \<le> bp" using p bitlen_eq_zero_iff [of p] bitlen_nonneg [of p] by (simp add: bp_def)
  have bq: "1 \<le> bq" using q bitlen_eq_zero_iff [of q] bitlen_nonneg [of q] by (simp add: bq_def)
  have P1: "(2::rat) powi (bp - 1) \<le> of_int p"
  proof -
    have "(of_int (2 ^ nat (bp - 1)) :: rat) \<le> of_int p" using p1 by (simp only: of_int_le_iff)
    then show ?thesis using bp by (simp add: power_int_nonneg_exp)
  qed
  have P2: "of_int p < (2::rat) powi bp"
  proof -
    have "(of_int p :: rat) < of_int (2 ^ nat bp)" using p2 by (simp only: of_int_less_iff)
    then show ?thesis using bp by (simp add: power_int_nonneg_exp)
  qed
  have Q1: "(2::rat) powi (bq - 1) \<le> of_int q"
  proof -
    have "(of_int (2 ^ nat (bq - 1)) :: rat) \<le> of_int q" using q1 by (simp only: of_int_le_iff)
    then show ?thesis using bq by (simp add: power_int_nonneg_exp)
  qed
  have Q2: "of_int q < (2::rat) powi bq"
  proof -
    have "(of_int q :: rat) < of_int (2 ^ nat bq)" using q2 by (simp only: of_int_less_iff)
    then show ?thesis using bq by (simp add: power_int_nonneg_exp)
  qed
  have qpos: "(0::rat) < of_int q" using q by simp
  have lo: "(2::rat) powi (bp - bq - 1) \<le> x"
  proof -
    have "(2::rat) powi (bp - bq - 1) * of_int q \<le> 2 powi (bp - bq - 1) * 2 powi bq"
      using Q2 by (intro mult_left_mono) (simp_all add: less_imp_le)
    also have "\<dots> = 2 powi (bp - 1)"
      by (simp add: power_int_add [symmetric])
    also have "\<dots> \<le> of_int p" by (rule P1)
    finally show ?thesis using qpos by (simp add: x pos_le_divide_eq)
  qed
  have hi: "x < (2::rat) powi (bp - bq + 1)"
  proof -
    have "of_int p < (2::rat) powi bp" by (rule P2)
    also have "\<dots> = 2 powi (bp - bq + 1) * 2 powi (bq - 1)"
      by (simp add: power_int_add [symmetric])
    also have "\<dots> \<le> 2 powi (bp - bq + 1) * of_int q"
      using Q1 by (intro mult_left_mono) simp_all
    finally show ?thesis using qpos by (simp add: x pos_divide_less_eq)
  qed
  have il: "ilog2 x = (if 2 powi (bp - bq) \<le> x then bp - bq else bp - bq - 1)"
    by (simp add: ilog2_def pq Let_def bp_def bq_def)
  show "2 powi ilog2 x \<le> x" using lo by (simp add: il)
  show "x < 2 powi (ilog2 x + 1)" using hi by (auto simp: il not_le)
qed

lemma fl_0 [simp]: "fl 0 = 0"
  by (simp add: fl_def)

lemma pow2_less_iff: "(2::rat) powi a < 2 powi b \<longleftrightarrow> a < b"
proof
  assume l: "(2::rat) powi a < 2 powi b"
  show "a < b"
  proof (rule ccontr)
    assume "\<not> a < b"
    then have "b \<le> a" by simp
    then have "(2::rat) powi b \<le> 2 powi a" by (rule power_int_increasing) simp
    with l show False by simp
  qed
next
  assume "a < b"
  then show "(2::rat) powi a < 2 powi b" by (rule power_int_strict_increasing) simp
qed

lemma pow2_split: "(2::rat) powi (a + b) = 2 powi a * 2 powi b"
  by (rule power_int_add) simp

lemma ilog2_ge:
  assumes "2 powi e \<le> x"
  shows "e \<le> ilog2 x"
proof -
  have "(0::rat) < 2 powi e" by (simp add: zero_less_power_int)
  with assms have x: "0 < x" by linarith
  from assms ilog2_bounds(2) [OF x] have "(2::rat) powi e < 2 powi (ilog2 x + 1)" by linarith
  then have "e < ilog2 x + 1" by (simp only: pow2_less_iff)
  then show ?thesis by simp
qed

lemma ilog2_less:
  assumes "0 < x" and "x < 2 powi e"
  shows "ilog2 x < e"
proof -
  from ilog2_bounds(1) [OF assms(1)] assms(2) have "(2::rat) powi ilog2 x < 2 powi e" by linarith
  then show ?thesis by (simp only: pow2_less_iff)
qed

lemma fl_normal:
  assumes "2 powi (- 1022) \<le> x"
  shows "fl x = of_int (round_half_even (x / 2 powi (ilog2 x - 52))) * 2 powi (ilog2 x - 52)"
proof -
  have "(0::rat) < 2 powi (- 1022)" by (simp add: zero_less_power_int)
  with assms have x: "0 < x" by linarith
  have "- 1022 \<le> ilog2 x" using assms by (rule ilog2_ge)
  then have "max (ilog2 x) (- 1022) = ilog2 x" by simp
  then show ?thesis using x by (simp add: fl_def Let_def)
qed

lemma fl_error:
  assumes "2 powi (- 1022) \<le> x"
  shows "\<bar>fl x - x\<bar> \<le> x / 2 ^ 53"
proof -
  have "(0::rat) < 2 powi (- 1022)" by (simp add: zero_less_power_int)
  with assms have x: "0 < x" by linarith
  define u :: rat where "u = 2 powi (ilog2 x - 52)"
  have u: "0 < u" by (simp add: u_def zero_less_power_int)
  have ux: "u * 2 ^ 52 \<le> x"
  proof -
    have "u * 2 ^ 52 = 2 powi (ilog2 x - 52) * 2 powi 52" by (simp add: u_def)
    also have "\<dots> = 2 powi (ilog2 x - 52 + 52)" by (rule pow2_split [symmetric])
    also have "\<dots> = 2 powi ilog2 x" by simp
    also have "\<dots> \<le> x" by (rule ilog2_bounds(1) [OF x])
    finally show ?thesis .
  qed
  have "fl x - x = (of_int (round_half_even (x / u)) - x / u) * u"
    using u by (simp add: fl_normal [OF assms] u_def [symmetric] algebra_simps)
  then have "\<bar>fl x - x\<bar> = \<bar>of_int (round_half_even (x / u)) - x / u\<bar> * u"
    using u by (simp add: abs_mult)
  also have "\<dots> \<le> (1 / 2) * u"
    using u round_half_even_error [of "x / u"] by (intro mult_right_mono) simp_all
  also have "\<dots> \<le> x / 2 ^ 53" using ux by (simp add: field_simps)
  finally show ?thesis .
qed

lemma fl_of_int:
  assumes "0 \<le> k" and "k < 2 ^ 53"
  shows "fl (of_int k) = of_int k"
proof (cases "k = 0")
  case True
  then show ?thesis by simp
next
  case False
  with assms have k: "1 \<le> k" by simp
  define x :: rat where "x = of_int k"
  have x1: "1 \<le> x" using k by (simp add: x_def)
  have "(2::rat) powi (- 1022) \<le> 2 powi 0" by (rule power_int_increasing) simp_all
  then have "(2::rat) powi (- 1022) \<le> 1" by simp
  with x1 have n: "2 powi (- 1022) \<le> x" by linarith
  have "(2::rat) powi 0 \<le> x" using x1 by simp
  then have e0: "0 \<le> ilog2 x" by (rule ilog2_ge)
  have "x < 2 powi 53"
  proof -
    have "(of_int k :: rat) < of_int (2 ^ 53)" using assms(2) by (simp only: of_int_less_iff)
    then show ?thesis by (simp add: x_def)
  qed
  with x1 have e1: "ilog2 x < 53" by (intro ilog2_less) simp_all
  define j where "j = nat (52 - ilog2 x)"
  have u: "(2::rat) powi (ilog2 x - 52) = 1 / 2 ^ j"
  proof -
    have "ilog2 x - 52 = - int j" using e1 by (simp add: j_def)
    then show ?thesis by (simp add: power_int_minus_divide)
  qed
  have "x / (1 / 2 ^ j) = of_int (k * 2 ^ j)" by (simp add: x_def)
  then have r: "round_half_even (x / (1 / 2 ^ j)) = k * 2 ^ j"
    by (simp only: round_half_even_of_int)
  have "fl x = of_int (round_half_even (x / (1 / 2 ^ j))) * (1 / 2 ^ j)"
    using fl_normal [OF n] unfolding u .
  also have "\<dots> = of_int (k * 2 ^ j) * (1 / 2 ^ j)" by (simp only: r)
  also have "\<dots> = of_int k" by simp
  finally show ?thesis by (simp only: x_def)
qed

lemma round_half_even_nonneg: "0 \<le> x \<Longrightarrow> 0 \<le> round_half_even x"
  by (auto simp: round_half_even_def Let_def)

lemma fl_nonneg: "0 \<le> x \<Longrightarrow> 0 \<le> fl x"
  by (auto simp: fl_def Let_def zero_le_mult_iff round_half_even_nonneg zero_le_power_int
      zero_le_divide_iff)

lemma fl_error_small:
  assumes "1 / 2 ^ 60 \<le> x"
  shows "\<bar>fl x - x\<bar> \<le> x / 2 ^ 53"
proof -
  have "(2::rat) powi (- 1022) \<le> 2 powi (- 60)" by (rule power_int_increasing) simp_all
  also have "\<dots> = 1 / 2 ^ 60" by (simp add: power_int_minus_divide)
  also note assms
  finally show ?thesis by (rule fl_error)
qed

lemma inverse_ge_small:
  assumes "0 < d" and "d < 2 ^ 53"
  shows "(1::rat) / 2 ^ 53 \<le> 1 / of_int d"
proof -
  have "(of_int d :: rat) < of_int (2 ^ 53)" using assms(2) by (simp only: of_int_less_iff)
  then have "(of_int d :: rat) \<le> 2 ^ 53" by simp
  then show ?thesis using assms(1) by (intro divide_left_mono) simp_all
qed

lemma floor_between:
  assumes "0 < (B::rat)" and "of_int l * B \<le> p * B" and "p * B < of_int h * B"
  shows "l \<le> \<lfloor>p\<rfloor>" and "\<lfloor>p\<rfloor> < h"
proof -
  from assms have "of_int l \<le> p" "p < of_int h" by simp_all
  then show "l \<le> \<lfloor>p\<rfloor>" and "\<lfloor>p\<rfloor> < h" by (simp_all add: le_floor_iff floor_less_iff)
qed

lemma floor_fl_divide:
  assumes n: "0 \<le> n" "n < 2 ^ 53" and d: "0 < d" "d < 2 ^ 53"
  shows "\<lfloor>fl (of_int n / of_int d)\<rfloor> = n div d"
proof (cases "n mod d = 0")
  case True
  define k where "k = n div d"
  from True have nk: "n = k * d" by (auto simp: k_def)
  have k0: "0 \<le> k" using n(1) d(1) by (simp add: k_def pos_imp_zdiv_nonneg_iff)
  have "k * 1 \<le> k * d" using k0 d(1) by (intro mult_left_mono) simp_all
  then have "k \<le> n" by (simp add: nk)
  with n(2) have k1: "k < 2 ^ 53" by linarith
  have "(of_int n :: rat) / of_int d = of_int k" using d(1) by (simp add: nk)
  then show ?thesis using fl_of_int [OF k0 k1] by (simp add: k_def)
next
  case False
  define B :: rat where "B = of_int d"
  define x :: rat where "x = of_int n / B"
  define k r where "k = n div d" and "r = n mod d"
  have B: "0 < B" using d by (simp add: B_def)
  have "0 \<le> n mod d" using d(1) by (rule pos_mod_sign)
  moreover have "n mod d < d" using d(1) by (rule pos_mod_bound)
  ultimately have r: "1 \<le> r" "r \<le> d - 1"
    using False unfolding r_def by linarith+
  have nkr: "n = k * d + r" by (simp add: k_def r_def)
  have n1: "1 \<le> n" using r nkr n d False by (cases "n = 0") simp_all
  have xB: "x * B = of_int n" using B by (simp add: x_def)
  have "1 / B \<le> x" using B n1 by (simp add: x_def divide_right_mono)
  with inverse_ge_small [OF d] have tiny: "1 / 2 ^ 60 \<le> x" by (simp add: B_def)
  have e: "\<bar>fl x - x\<bar> \<le> x / 2 ^ 53" using tiny by (rule fl_error_small)
  have "\<bar>fl x - x\<bar> * B \<le> (x / 2 ^ 53) * B" using e B by (intro mult_right_mono) simp_all
  also have "\<dots> = of_int n / 2 ^ 53" using xB by simp
  also have "\<dots> < 1"
  proof -
    have "(of_int n :: rat) < of_int (2 ^ 53)" using n(2) by (simp only: of_int_less_iff)
    then show ?thesis by simp
  qed
  finally have eB: "\<bar>fl x - x\<bar> * B < 1" .
  have "\<bar>fl x * B - of_int n\<bar> = \<bar>fl x - x\<bar> * B"
    using B by (simp add: xB [symmetric] left_diff_distrib [symmetric] abs_mult)
  with eB have c: "of_int n - 1 < fl x * B" "fl x * B < of_int n + 1" by linarith+
  have "(of_int k :: rat) * B = of_int (k * d)" by (simp add: B_def)
  also have "\<dots> \<le> of_int (n - 1)"
  proof -
    have "k * d \<le> n - 1" using r nkr by simp
    then show ?thesis by (simp only: of_int_le_iff)
  qed
  also have "\<dots> < fl x * B" using c(1) by simp
  finally have lo: "of_int k * B \<le> fl x * B" by simp
  have "fl x * B < of_int (n + 1)" using c(2) by simp
  also have "\<dots> \<le> of_int ((k + 1) * d)"
  proof -
    have "n + 1 \<le> (k + 1) * d" using r nkr by (simp add: algebra_simps)
    then show ?thesis by (simp only: of_int_le_iff)
  qed
  also have "\<dots> = of_int (k + 1) * B" by (simp add: B_def)
  finally have hi: "fl x * B < of_int (k + 1) * B" .
  from floor_between [OF B lo hi] have "\<lfloor>fl x\<rfloor> = k" by simp
  then show ?thesis by (simp add: x_def B_def k_def)
qed

lemma floor_of_scaled:
  assumes d: "0 < d" and close: "\<bar>p * of_int d - of_int n\<bar> < (1::rat)"
  shows "n div d - 1 \<le> \<lfloor>p\<rfloor>" and "\<lfloor>p\<rfloor> \<le> n div d"
proof -
  define B :: rat where "B = of_int d"
  define k r where "k = n div d" and "r = n mod d"
  have B: "0 < B" using d by (simp add: B_def)
  have "0 \<le> n mod d" using d by (rule pos_mod_sign)
  moreover have "n mod d < d" using d by (rule pos_mod_bound)
  ultimately have r: "0 \<le> r" "r \<le> d - 1" unfolding r_def by linarith+
  have nkr: "n = k * d + r" by (simp add: k_def r_def)
  from close have c: "of_int n - 1 < p * B" "p * B < of_int n + 1"
    unfolding B_def by linarith+
  have "(of_int (k - 1) :: rat) * B = of_int ((k - 1) * d)" by (simp add: B_def)
  also have "\<dots> \<le> of_int (n - 1)"
  proof -
    have "(k - 1) * d \<le> n - 1" using r d nkr by (simp add: algebra_simps)
    then show ?thesis by (simp only: of_int_le_iff)
  qed
  also have "\<dots> < p * B" using c(1) by simp
  finally have lo: "of_int (k - 1) * B \<le> p * B" by simp
  have "p * B < of_int (n + 1)" using c(2) by simp
  also have "\<dots> \<le> of_int ((k + 1) * d)"
  proof -
    have "n + 1 \<le> (k + 1) * d" using r nkr by (simp add: algebra_simps)
    then show ?thesis by (simp only: of_int_le_iff)
  qed
  also have "\<dots> = of_int (k + 1) * B" by (simp add: B_def)
  finally have hi: "p * B < of_int (k + 1) * B" .
  from floor_between [OF B lo hi] show "n div d - 1 \<le> \<lfloor>p\<rfloor>" and "\<lfloor>p\<rfloor> \<le> n div d"
    by (simp_all add: k_def)
qed

lemma fl_mul_fl_divide_close:
  assumes a: "1 \<le> a" and b: "0 < b" "b < 2 ^ 53" and c: "1 \<le> c"
    and ac: "3 * (a * c) < 2 ^ 53"
  shows "\<bar>fl (fl (of_int a / of_int b) * of_int c) * of_int b - of_int (a * c)\<bar> < 1"
proof -
  define A B C :: rat where "A = of_int a" and "B = of_int b" and "C = of_int c"
  define x where "x = A / B"
  define q where "q = fl x"
  define y where "y = q * C"
  define p where "p = fl y"
  define u :: rat where "u = 1 / 2 ^ 53"
  have A: "1 \<le> A" and B: "0 < B" and C: "1 \<le> C"
    using a b c by (simp_all add: A_def B_def C_def)
  have u: "0 < u" "u \<le> 1 / 2" by (simp_all add: u_def)
  have Bu: "u \<le> 1 / B" using inverse_ge_small [OF b] by (simp add: u_def B_def)
  have "1 / B \<le> x" using A B by (simp add: x_def divide_right_mono)
  with Bu have xu: "u \<le> x" by linarith
  then have x: "0 < x" using u by linarith
  have "1 / 2 ^ 60 \<le> x" using xu by (simp add: u_def)
  then have "\<bar>fl x - x\<bar> \<le> x / 2 ^ 53" by (rule fl_error_small)
  then have e1: "\<bar>q - x\<bar> \<le> x * u" by (simp add: q_def u_def)
  have "x * u \<le> x * (1 / 2)" using x u by (intro mult_left_mono) simp_all
  then have xu2: "x * u \<le> x / 2" by simp
  from e1 xu2 x have q: "x / 2 \<le> q" "q \<le> 2 * x" by linarith+
  have X: "0 < x * C" using x C by simp
  have yq: "q \<le> y"
  proof -
    have "q * 1 \<le> q * C" using q x C by (intro mult_left_mono) simp_all
    then show ?thesis by (simp add: y_def)
  qed
  have "1 / 2 ^ 60 \<le> u / 2" by (simp add: u_def)
  also have "\<dots> \<le> x / 2" using xu by simp
  also have "\<dots> \<le> y" using q yq by linarith
  finally have "\<bar>fl y - y\<bar> \<le> y / 2 ^ 53" by (rule fl_error_small)
  then have e2: "\<bar>p - y\<bar> \<le> y * u" by (simp add: p_def u_def)
  have y2: "y \<le> 2 * (x * C)"
  proof -
    have "q * C \<le> (2 * x) * C" using q C by (intro mult_right_mono) simp_all
    then show ?thesis by (simp add: y_def mult.assoc)
  qed
  have "y * u \<le> (2 * (x * C)) * u" using y2 u by (intro mult_right_mono) simp_all
  with e2 have e2': "\<bar>p - y\<bar> \<le> 2 * (x * C) * u" by linarith
  have "\<bar>y - x * C\<bar> = \<bar>q - x\<bar> * C"
    using C by (simp add: y_def left_diff_distrib [symmetric] abs_mult)
  also have "\<dots> \<le> (x * u) * C" using e1 C by (intro mult_right_mono) simp_all
  finally have e3: "\<bar>y - x * C\<bar> \<le> (x * C) * u" by (simp add: mult_ac)
  have "\<bar>p - x * C\<bar> \<le> \<bar>p - y\<bar> + \<bar>y - x * C\<bar>" by simp
  with e2' e3 have e4: "\<bar>p - x * C\<bar> \<le> 3 * (x * C) * u" by linarith
  have xB: "x * B = A" using B by (simp add: x_def)
  have "\<bar>p * B - A * C\<bar> = \<bar>p - x * C\<bar> * B"
  proof -
    have "p * B - A * C = (p - x * C) * B" by (simp add: xB [symmetric] algebra_simps)
    then show ?thesis using B by (simp add: abs_mult)
  qed
  also have "\<dots> \<le> (3 * (x * C) * u) * B" using e4 B by (intro mult_right_mono) simp_all
  also have "\<dots> = 3 * (A * C) * u" by (simp add: xB [symmetric] mult_ac)
  also have "\<dots> < 1"
  proof -
    have "(of_int (3 * (a * c)) :: rat) < of_int (2 ^ 53)" using ac by (simp only: of_int_less_iff)
    then have "3 * (A * C) < 2 ^ 53" by (simp add: A_def C_def)
    then show ?thesis by (simp add: u_def)
  qed
  finally show ?thesis by (simp add: p_def y_def q_def x_def A_def B_def C_def)
qed

lemma floor_fl_mul_fl_divide:
  assumes a: "0 \<le> a" and b: "0 < b" "b < 2 ^ 53" and c: "0 \<le> c"
    and ac: "3 * (a * c) < 2 ^ 53"
  shows "(a * c) div b - 1 \<le> \<lfloor>fl (fl (of_int a / of_int b) * of_int c)\<rfloor>"
    and "\<lfloor>fl (fl (of_int a / of_int b) * of_int c)\<rfloor> \<le> (a * c) div b"
proof -
  have "(a * c) div b - 1 \<le> \<lfloor>fl (fl (of_int a / of_int b) * of_int c)\<rfloor>
        \<and> \<lfloor>fl (fl (of_int a / of_int b) * of_int c)\<rfloor> \<le> (a * c) div b"
  proof (cases "a = 0 \<or> c = 0")
    case True
    then show ?thesis by auto
  next
    case False
    with a c have "1 \<le> a" "1 \<le> c" by simp_all
    from fl_mul_fl_divide_close [OF this(1) b this(2) ac] floor_of_scaled [OF b(1)]
    show ?thesis by blast
  qed
  then show "(a * c) div b - 1 \<le> \<lfloor>fl (fl (of_int a / of_int b) * of_int c)\<rfloor>"
    and "\<lfloor>fl (fl (of_int a / of_int b) * of_int c)\<rfloor> \<le> (a * c) div b" by simp_all
qed

lemma sum_list_nonneg_int:
  "\<forall>x\<in>set xs. (0::int) \<le> x \<Longrightarrow> 0 \<le> sum_list xs"
  by (induction xs) auto

lemma member_le_sum_list_int:
  "\<forall>x\<in>set xs. (0::int) \<le> x \<Longrightarrow> y \<in> set xs \<Longrightarrow> y \<le> sum_list xs"
proof (induction xs)
  case Nil
  then show ?case by simp
next
  case (Cons a xs)
  then have "0 \<le> sum_list xs" by (simp add: sum_list_nonneg_int)
  with Cons show ?case by auto
qed

lemma length_le_sum_list_int:
  "\<forall>x\<in>set xs. (0::int) < x \<Longrightarrow> int (length xs) \<le> sum_list xs"
  by (induction xs) auto

lemma sum_list_float_exact:
  assumes "\<forall>x\<in>set xs. 0 \<le> x \<and> x < 2 ^ 53"
  shows "sum_list (map py_float_of_int xs) = of_int (sum_list xs)"
  using assms by (induction xs) (simp_all add: py_float_of_int_def fl_of_int)

lemma fsum_exact:
  assumes pos: "\<forall>x\<in>set xs. 0 \<le> x" and s: "sum_list xs < 2 ^ 53"
  shows "fsum xs = of_int (sum_list xs)"
proof -
  have "\<forall>x\<in>set xs. 0 \<le> x \<and> x < 2 ^ 53"
    using member_le_sum_list_int [OF pos] pos s by fastforce
  then have "sum_list (map py_float_of_int xs) = of_int (sum_list xs)"
    by (rule sum_list_float_exact)
  then show ?thesis
    using fl_of_int [OF sum_list_nonneg_int [OF pos] s] by (simp add: fsum_def)
qed

lemma rr_core:
  assumes n: "1 \<le> n" and S: "n \<le> S" "14 * S < 2 ^ 53"
  shows "\<bar>of_int (round_half_even (fl (fl (of_int S / of_int n) * fl (1 / 1000)) * 10))
           - of_int S / (100 * of_int n)\<bar> \<le> (1::rat) / 2"
proof -
  define Sr N :: rat where "Sr = of_int S" and "N = of_int n"
  define u t :: rat where "u = 1 / 2 ^ 53" and "t = 1 / 1000"
  define x1 where "x1 = Sr / N"
  define m where "m = fl x1"
  define c where "c = fl t"
  define X where "X = x1 * t"
  define y where "y = fl (m * c)"
  define k where "k = round_half_even (y * 10)"
  define Z where "Z = Sr / (100 * N)"
  have N: "1 \<le> N" using n by (simp add: N_def)
  have SN: "N \<le> Sr" using S(1) by (simp add: N_def Sr_def)
  have u: "0 < u" "u \<le> 1 / 6" by (simp_all add: u_def)
  have t: "0 < t" by (simp add: t_def)
  have x1: "1 \<le> x1" using N SN by (simp add: x1_def)
  have Xt: "t \<le> X"
  proof -
    have "1 * t \<le> x1 * t" using x1 t by (intro mult_right_mono) simp_all
    then show ?thesis by (simp add: X_def)
  qed
  have X: "0 < X" using Xt t by linarith
  have "1 / 2 ^ 60 \<le> x1" using x1 by simp
  then have "\<bar>fl x1 - x1\<bar> \<le> x1 / 2 ^ 53" by (rule fl_error_small)
  then have e1: "\<bar>m - x1\<bar> \<le> x1 * u" by (simp add: m_def u_def)
  have "1 / 2 ^ 60 \<le> t" by (simp add: t_def)
  then have "\<bar>fl t - t\<bar> \<le> t / 2 ^ 53" by (rule fl_error_small)
  then have ec: "\<bar>c - t\<bar> \<le> t * u" by (simp add: c_def u_def)
  have "t * u \<le> t * 1" using t u by (intro mult_left_mono) simp_all
  then have tu: "t * u \<le> t" by simp
  from ec tu t have c: "0 \<le> c" "c \<le> 2 * t" by linarith+
  have d1: "\<bar>m * c - X\<bar> \<le> 3 * X * u"
  proof -
    have "m * c - X = (m - x1) * c + x1 * (c - t)" by (simp add: X_def algebra_simps)
    then have "\<bar>m * c - X\<bar> \<le> \<bar>m - x1\<bar> * \<bar>c\<bar> + \<bar>x1\<bar> * \<bar>c - t\<bar>"
      by (simp add: abs_mult [symmetric])
    also have "\<bar>m - x1\<bar> * \<bar>c\<bar> \<le> (x1 * u) * (2 * t)"
      using e1 c x1 u by (intro mult_mono) simp_all
    also have "\<bar>x1\<bar> * \<bar>c - t\<bar> \<le> x1 * (t * u)"
      using ec x1 by (intro mult_mono) simp_all
    finally show ?thesis by (simp add: X_def algebra_simps)
  qed
  have Xu: "3 * X * u \<le> X / 2"
  proof -
    have "X * (3 * u) \<le> X * (1 / 2)" using X u by (intro mult_left_mono) simp_all
    then show ?thesis by (simp add: mult_ac)
  qed
  from d1 Xu X have mc: "X / 2 \<le> m * c" "m * c \<le> 4 * X" by linarith+
  have "1 / 2 ^ 60 \<le> t / 2" by (simp add: t_def)
  also have "\<dots> \<le> m * c" using Xt mc by linarith
  finally have "\<bar>fl (m * c) - m * c\<bar> \<le> (m * c) / 2 ^ 53" by (rule fl_error_small)
  then have e2: "\<bar>y - m * c\<bar> \<le> (m * c) * u" by (simp add: y_def u_def)
  have "(m * c) * u \<le> (4 * X) * u" using mc u by (intro mult_right_mono) simp_all
  with e2 d1 have e3: "\<bar>y - X\<bar> \<le> 7 * X * u" by linarith
  have ZX: "Z = 10 * X" using N by (simp add: Z_def X_def x1_def t_def)
  have e4: "\<bar>y * 10 - Z\<bar> \<le> 7 * Z * u" using e3 by (simp add: ZX)
  have ek: "\<bar>of_int k - y * 10\<bar> \<le> 1 / 2"
    unfolding k_def by (rule round_half_even_error)
  from e4 ek have e5: "\<bar>of_int k - Z\<bar> \<le> 1 / 2 + 7 * Z * u" by linarith
  define D where "D = 100 * n"
  define Dr :: rat where "Dr = of_int D"
  have D: "0 < D" using n by (simp add: D_def)
  have Dr: "0 < Dr" using D by (simp add: Dr_def)
  have ZD: "Z * Dr = Sr" using N by (simp add: Z_def Dr_def D_def N_def)
  have small: "7 * Sr * u < 1 / 2"
  proof -
    have "(of_int (14 * S) :: rat) < of_int (2 ^ 53)" using S(2) by (simp only: of_int_less_iff)
    then show ?thesis by (simp add: Sr_def u_def)
  qed
  have "\<bar>of_int k * Dr - Sr\<bar> = \<bar>of_int k - Z\<bar> * Dr"
  proof -
    have "of_int k * Dr - Sr = (of_int k - Z) * Dr" by (simp add: ZD [symmetric] algebra_simps)
    then show ?thesis using Dr by (simp add: abs_mult)
  qed
  also have "\<dots> \<le> (1 / 2 + 7 * Z * u) * Dr" using e5 Dr by (intro mult_right_mono) simp_all
  also have "\<dots> = Dr / 2 + 7 * Sr * u" by (simp add: ZD [symmetric] algebra_simps)
  also have "\<dots> < Dr / 2 + 1 / 2" using small by simp
  finally have "\<bar>of_int (2 * (k * D - S))\<bar> < (of_int (D + 1) :: rat)"
    by (simp add: Dr_def Sr_def)
  then have "\<bar>2 * (k * D - S)\<bar> < D + 1"
    by (simp only: of_int_abs [symmetric] of_int_less_iff)
  then have "\<bar>2 * (k * D - S)\<bar> \<le> D" by simp
  then have "(of_int \<bar>2 * (k * D - S)\<bar> :: rat) \<le> of_int D" by (simp only: of_int_le_iff)
  then have "\<bar>2 * (of_int k * Dr - Sr)\<bar> \<le> Dr" by (simp add: Dr_def Sr_def)
  then have "2 * \<bar>of_int k * Dr - Sr\<bar> \<le> Dr" by (simp only: abs_mult abs_numeral)
  then have "\<bar>of_int k * Dr - Sr\<bar> \<le> Dr / 2" by simp
  moreover have "\<bar>of_int k * Dr - Sr\<bar> = \<bar>of_int k - Z\<bar> * Dr"
  proof -
    have "of_int k * Dr - Sr = (of_int k - Z) * Dr" by (simp add: ZD [symmetric] algebra_simps)
    then show ?thesis using Dr by (simp add: abs_mult)
  qed
  ultimately have "\<bar>of_int k - Z\<bar> * Dr \<le> (1 / 2) * Dr" by simp
  then have "\<bar>of_int k - Z\<bar> \<le> 1 / 2" using Dr by (simp only: mult_le_cancel_right_pos)
  then show ?thesis
    by (simp add: k_def y_def m_def c_def x1_def t_def Z_def Sr_def N_def)
qed

section \<open>Properties of the detector\<close>

lemma scan_range_in_bounds:
  "i \<in> set (scan_range st) \<Longrightarrow> i + 1 < length (ecg_data st)"
  by (auto simp: scan_range_def)

lemma detect_r_peaks_loop_Nil [simp]: "detect_r_peaks_loop st [] = st"
  by (simp add: detect_r_peaks_loop_def)

lemma detect_r_peaks_loop_Cons [simp]:
  "detect_r_peaks_loop st (i # is) = detect_r_peaks_loop (detect_r_peaks_step st i) is"
  by (simp add: detect_r_peaks_loop_def)

lemma detect_r_peaks_loop_append:
  "detect_r_peaks_loop st (is @ js) = detect_r_peaks_loop (detect_r_peaks_loop st is) js"
  by (simp add: detect_r_peaks_loop_def)

lemma ecg_data_step [simp]: "ecg_data (detect_r_peaks_step st i) = ecg_data st"
  by (simp add: detect_r_peaks_step_def Let_def)

lemma ecg_data_loop [simp]: "ecg_data (detect_r_peaks_loop st is) = ecg_data st"
  by (induction "is" arbitrary: st) simp_all

lemma emits_peak_iff:
  "emits_peak st i \<longleftrightarrow>
     r_peak_detectable st \<and> ecg_data st ! i > r_peak_upper_threshold
       \<and> ecg_data st ! i > ecg_data st ! (i + 1)"
  by (simp add: emits_peak_def detect_r_peaks_step_def Let_def)

lemma emits_peak_disarms:
  "emits_peak st i \<Longrightarrow> \<not> r_peak_detectable (detect_r_peaks_step st i)"
  by (simp add: emits_peak_iff detect_r_peaks_step_def Let_def)

lemma disarmed_step:
  assumes "\<not> r_peak_detectable st" and "\<not> ecg_data st ! i < r_peak_lower_threshold"
  shows "\<not> r_peak_detectable (detect_r_peaks_step st i)"
    and "r_peak_intervals (detect_r_peaks_step st i) = r_peak_intervals st"
  using assms by (simp_all add: detect_r_peaks_step_def Let_def)

lemma disarmed_loop:
  assumes "\<not> r_peak_detectable st"
    and "\<forall>k\<in>set is. \<not> ecg_data st ! k < r_peak_lower_threshold"
  shows "\<not> r_peak_detectable (detect_r_peaks_loop st is)
         \<and> r_peak_intervals (detect_r_peaks_loop st is) = r_peak_intervals st"
  using assms
proof (induction "is" arbitrary: st)
  case Nil
  then show ?case by simp
next
  case (Cons i "is")
  let ?s = "detect_r_peaks_step st i"
  from Cons.prems have low: "\<not> ecg_data st ! i < r_peak_lower_threshold" by simp
  have d: "\<not> r_peak_detectable ?s" and r: "r_peak_intervals ?s = r_peak_intervals st"
    using disarmed_step [OF Cons.prems(1) low] by simp_all
  from Cons.prems have "\<forall>k\<in>set is. \<not> ecg_data ?s ! k < r_peak_lower_threshold" by simp
  from Cons.IH [OF d this] r show ?case by simp
qed

text \<open>
  C1 (hysteresis debounce). Whatever indices a scan visits and whatever state it starts
  from: a pass that records a peak leaves the detector disarmed, and if a later pass
  \<open>j\<close> records the next peak after the passes \<open>mid\<close>, then one of the samples
  scanned in \<open>mid\<close> is strictly below the lower threshold. \<open>detect_r_peaks\<close> is
  this loop over \<open>scan_range\<close>, and the detector's fields persist between calls, so
  a series of calls is the loop over the concatenation of their ranges
  (\<open>detect_r_peaks_loop_append\<close>).
\<close>

theorem hysteresis_debounce:
  assumes "emits_peak (detect_r_peaks_loop st pre) i"
  shows "\<not> r_peak_detectable (detect_r_peaks_loop st (pre @ [i]))
         \<and> (emits_peak (detect_r_peaks_loop st (pre @ i # mid)) j
              \<longrightarrow> (\<exists>k\<in>set mid. ecg_data st ! k < r_peak_lower_threshold))"
proof -
  let ?s0 = "detect_r_peaks_loop st pre"
  let ?s1 = "detect_r_peaks_step ?s0 i"
  have s1: "detect_r_peaks_loop st (pre @ [i]) = ?s1"
    by (simp add: detect_r_peaks_loop_append)
  have off: "\<not> r_peak_detectable ?s1"
    using assms by (rule emits_peak_disarms)
  have "\<exists>k\<in>set mid. ecg_data st ! k < r_peak_lower_threshold"
    if e2: "emits_peak (detect_r_peaks_loop st (pre @ i # mid)) j"
  proof (rule ccontr)
    assume "\<not> (\<exists>k\<in>set mid. ecg_data st ! k < r_peak_lower_threshold)"
    then have "\<forall>k\<in>set mid. \<not> ecg_data ?s1 ! k < r_peak_lower_threshold"
      by simp
    from disarmed_loop [OF off this]
    have "\<not> r_peak_detectable (detect_r_peaks_loop ?s1 mid)" by simp
    moreover have "detect_r_peaks_loop st (pre @ i # mid) = detect_r_peaks_loop ?s1 mid"
      by (simp add: detect_r_peaks_loop_append)
    ultimately show False
      using e2 by (simp add: emits_peak_iff)
  qed
  with off s1 show ?thesis by simp
qed

theorem hysteresis_debounce_witness:
  "emits_peak (detect_r_peaks_loop (init_window\<lparr>ecg_data := [3000, 1000, 3000, 1000]\<rparr>) []) 0
   \<and> \<not> r_peak_detectable
         (detect_r_peaks_loop (init_window\<lparr>ecg_data := [3000, 1000, 3000, 1000]\<rparr>) ([] @ [0]))
   \<and> emits_peak
        (detect_r_peaks_loop (init_window\<lparr>ecg_data := [3000, 1000, 3000, 1000]\<rparr>) ([] @ 0 # [1])) 2
   \<and> (\<exists>k\<in>set [1]. ecg_data (init_window\<lparr>ecg_data := [3000, 1000, 3000, 1000]\<rparr>) ! k
          < r_peak_lower_threshold)"
proof -
  let ?s = "init_window\<lparr>ecg_data := [3000, 1000, 3000, 1000]\<rparr>"
  have e1: "emits_peak (detect_r_peaks_loop ?s []) 0"
    by (simp add: emits_peak_iff init_window_def reset_ydata_def r_peak_upper_threshold_def)
  have e2: "emits_peak (detect_r_peaks_loop ?s ([] @ 0 # [1])) 2"
    by (simp add: emits_peak_iff detect_r_peaks_step_def init_window_def reset_ydata_def
        r_peak_upper_threshold_def r_peak_lower_threshold_def Let_def)
  from hysteresis_debounce [OF e1, of "[1]" 2] e1 e2 show ?thesis
    by simp
qed

section \<open>Properties of the live window\<close>

lemma ydata_step [simp]: "ydata (detect_r_peaks_step st i) = ydata st"
  by (simp add: detect_r_peaks_step_def Let_def)

lemma ydata_loop [simp]: "ydata (detect_r_peaks_loop st is) = ydata st"
  by (induction "is" arbitrary: st) simp_all

lemma ydata_detect_r_peaks [simp]: "ydata (detect_r_peaks st) = ydata st"
  by (simp add: detect_r_peaks_def)

lemma ecg_data_detect_r_peaks [simp]: "ecg_data (detect_r_peaks st) = ecg_data st"
  by (simp add: detect_r_peaks_def)

lemma ecg_data_process_fresh_data [simp]:
  "ecg_data (process_fresh_data st) = ecg_data st"
  by (simp add: process_fresh_data_def Let_def)

lemma last_processed_index_process_fresh_data [simp]:
  "last_processed_index (process_fresh_data st) = length (ecg_data st)"
  by (simp add: process_fresh_data_def Let_def)




lemma start_measurement_fields:
  "ydata (start_measurement st) = min_ydata_value # replicate (display_count - 1) max_ydata_value"
  "ecg_data (start_measurement st) = []"
  "last_processed_index (start_measurement st) = 0"
  "r_peak_intervals (start_measurement st) = []"
  "r_peak_detectable (start_measurement st)"
  "r_peak_interval_counter (start_measurement st) = 0"
  "is_measurement_in_progress (start_measurement st)"
  "timer_active (start_measurement st)"
  "message_boxes (start_measurement st) = message_boxes st"
  by (simp_all add: start_measurement_def reset_measurement_data_and_graph_ui_def
        reset_labels_def reset_ydata_def write_serial_def)




section \<open>The incremental scan\<close>

lemma scan_range_set:
  "set (scan_range st) = {i. last_processed_index st \<le> i \<and> i + 1 < length (ecg_data st)}"
  by (auto simp: scan_range_def)

lemma detect_r_peaks_step_ydata:
  "detect_r_peaks_step (st\<lparr>ydata := y\<rparr>) i = (detect_r_peaks_step st i)\<lparr>ydata := y\<rparr>"
  by (simp add: detect_r_peaks_step_def Let_def)

lemma detect_r_peaks_loop_ydata:
  "detect_r_peaks_loop (st\<lparr>ydata := y\<rparr>) is = (detect_r_peaks_loop st is)\<lparr>ydata := y\<rparr>"
  by (induction "is" arbitrary: st) (simp_all add: detect_r_peaks_step_ydata)

lemma detect_r_peaks_ydata:
  "detect_r_peaks (st\<lparr>ydata := y\<rparr>) = (detect_r_peaks st)\<lparr>ydata := y\<rparr>"
  by (simp add: detect_r_peaks_def scan_range_def detect_r_peaks_loop_ydata)

lemma process_fresh_data_eq:
  "process_fresh_data st =
     (detect_r_peaks st)
       \<lparr>ydata := drop (length (ecg_data st) - last_processed_index st) (ydata st)
                   @ drop (last_processed_index st) (ecg_data st),
        last_processed_index := length (ecg_data st)\<rparr>"
  by (simp add: process_fresh_data_def Let_def detect_r_peaks_ydata)

lemma r_peak_intervals_process_fresh_data:
  "r_peak_intervals (process_fresh_data st) = r_peak_intervals (detect_r_peaks st)"
  "r_peak_detectable (process_fresh_data st) = r_peak_detectable (detect_r_peaks st)"
  "r_peak_interval_counter (process_fresh_data st) = r_peak_interval_counter (detect_r_peaks st)"
  by (simp_all add: process_fresh_data_eq)

text \<open>
  C2 (incremental scan). A call of \<open>detect_r_peaks\<close> visits the indices from
  \<open>last_processed_index\<close> up to, and without, the last one (\<open>scan_range_set\<close>). But
  \<open>process_fresh_data\<close> then sets \<open>last_processed_index\<close> to the length of the list
  (\<open>last_processed_index_process_fresh_data\<close>), not to the length less one, so the
  last sample of a tick is never visited. Here the first tick brings 1000 and 3000, the
  second 1000 and 1000: after the first tick the index is 2, the peak at index 1 is
  missed by the two ticks, and one call over the same four samples, as
  \<open>load_measurement\<close> makes it, records it.
\<close>

theorem last_sample_of_tick_not_scanned:
  "last_processed_index (feed (start_measurement init_window) [[1000, 3000]]) = 2
   \<and> r_peak_intervals (feed (start_measurement init_window) [[1000, 3000], [1000, 1000]]) = []
   \<and> r_peak_intervals
        (detect_r_peaks ((start_measurement init_window)\<lparr>ecg_data := [1000, 3000, 1000, 1000]\<rparr>))
       = [4]"
  by (simp add: r_peak_intervals_process_fresh_data start_measurement_fields detect_r_peaks_def
      scan_range_def detect_r_peaks_step_def upt_rec Let_def sampling_time_def
      r_peak_upper_threshold_def r_peak_lower_threshold_def)

section \<open>Properties of the metrics\<close>

lemma sampling_rate_eq: "sampling_rate = 500"
  by code_simp

lemma py_int_nonneg: "0 \<le> x \<Longrightarrow> py_int x = \<lfloor>x\<rfloor>"
  by (simp add: py_int_def)

lemma get_elapsed_time_eq:
  assumes "length (ecg_data st) < 2 ^ 53"
  shows "get_elapsed_time st = int (length (ecg_data st)) div 500"
proof -
  let ?n = "int (length (ecg_data st))"
  have n: "0 \<le> ?n" "?n < 2 ^ 53" using assms by simp_all
  have "0 \<le> fl (of_int ?n / of_int 500)" by (intro fl_nonneg) simp
  then have "py_int (fl (of_int ?n / of_int 500)) = \<lfloor>fl (of_int ?n / of_int 500)\<rfloor>"
    by (rule py_int_nonneg)
  also have "\<dots> = ?n div 500" using n by (intro floor_fl_divide) simp_all
  finally show ?thesis by (simp add: get_elapsed_time_def sampling_rate_eq)
qed

lemma get_elapsed_time_nonneg: "0 \<le> get_elapsed_time st"
proof -
  have "0 \<le> fl (of_int (int (length (ecg_data st))) / of_int sampling_rate)"
    by (intro fl_nonneg) (simp add: sampling_rate_eq)
  then show ?thesis by (simp add: get_elapsed_time_def py_int_def)
qed


lemma get_rr_interval_error_iff:
  "get_rr_interval st = Inl StatisticsError \<longleftrightarrow> r_peak_intervals st = []"
  "isl (get_rr_interval st) \<longleftrightarrow> r_peak_intervals st = []"
  by (simp_all add: get_rr_interval_def fmean_def)

lemma bpm_41_20: "py_int (py_mul (fl (of_int 41 / of_int 20)) (py_float_of_int 60)) = 122"
  by code_simp

lemma bpm_10_10: "py_int (py_mul (fl (of_int 10 / of_int 10)) (py_float_of_int 60)) = 60"
  by code_simp

lemma get_bpm_fixture:
  "get_bpm (init_window\<lparr>ecg_data := replicate 5000 0, r_peak_intervals := replicate 9 1000\<rparr>)
     = Inr 60"
proof -
  let ?s = "init_window\<lparr>ecg_data := replicate 5000 0, r_peak_intervals := replicate 9 1000\<rparr>"
  have "get_elapsed_time ?s = 10" by (simp add: get_elapsed_time_eq)
  then show ?thesis using bpm_10_10 by (simp add: get_bpm_def py_truediv_def)
qed

lemma get_bpm_bounds:
  assumes e: "get_elapsed_time st \<noteq> 0"
    and len: "length (ecg_data st) < 2 ^ 53" "length (r_peak_intervals st) < 2 ^ 40"
  shows "\<exists>b. get_bpm st = Inr b
           \<and> (int (length (r_peak_intervals st)) + 1) * 60 div get_elapsed_time st - 1 \<le> b
           \<and> b \<le> (int (length (r_peak_intervals st)) + 1) * 60 div get_elapsed_time st"
proof -
  define a where "a = int (length (r_peak_intervals st)) + 1"
  define t where "t = get_elapsed_time st"
  have a: "0 \<le> a" "a \<le> 2 ^ 40" using len(2) by (simp_all add: a_def)
  have t0: "0 < t" using e get_elapsed_time_nonneg [of st] by (simp add: t_def)
  have "t \<le> int (length (ecg_data st))"
  proof -
    have "int (length (ecg_data st)) div 500 \<le> int (length (ecg_data st))"
      by (rule order_trans [OF zdiv_mono2 [of _ 1 500]]) simp_all
    then show ?thesis using len(1) by (simp add: t_def get_elapsed_time_eq)
  qed
  then have t1: "t < 2 ^ 53" using len(1) by simp
  have ac: "3 * (a * 60) < 2 ^ 53" using a by simp
  define p where "p = fl (fl (of_int a / of_int t) * of_int 60)"
  have p0: "0 \<le> p" unfolding p_def using a t0 by (intro fl_nonneg mult_nonneg_nonneg) simp_all
  have b: "a * 60 div t - 1 \<le> \<lfloor>p\<rfloor>" "\<lfloor>p\<rfloor> \<le> a * 60 div t"
    unfolding p_def using floor_fl_mul_fl_divide [OF a(1) t0 t1 _ ac] by simp_all
  have "fl (of_int 60) = (of_int 60 :: rat)" by (rule fl_of_int) simp_all
  then have "get_bpm st = Inr (py_int p)"
    using t0 by (simp add: get_bpm_def py_truediv_def py_mul_def py_float_of_int_def p_def
        a_def t_def)
  then show ?thesis using b p0 by (simp add: py_int_nonneg a_def t_def)
qed

text \<open>
  C4 (BPM). \<open>get_bpm\<close> raises \<open>ZeroDivisionError\<close> exactly when the elapsed time is
  0 (\<open>get_bpm_error_iff\<close>), and 9 intervals in 10 seconds give 60
  (\<open>get_bpm_fixture\<close>). But the quotient and the product are floats, and \<open>int\<close>
  truncates the rounded product: with 40 recorded intervals and 10000 samples
  (20 seconds) the code computes \<open>41 / 20 = 2.05\<close>, rounded below 2.05, times 60,
  which is just below 123, and returns 122, where \<open>(40 + 1) * 60 / 20\<close> rounded
  down is 123. In general the result is the exact rounded-down value or one less
  (\<open>get_bpm_bounds\<close>).
\<close>

theorem get_bpm_truncates_float:
  "get_bpm (init_window\<lparr>ecg_data := replicate 10000 0, r_peak_intervals := replicate 40 800\<rparr>)
     = Inr 122
   \<and> (int (length (replicate 40 (800::int))) + 1) * 60 div 20 = 123"
proof -
  let ?s = "init_window\<lparr>ecg_data := replicate 10000 0, r_peak_intervals := replicate 40 800\<rparr>"
  have "get_elapsed_time ?s = 20" by (simp add: get_elapsed_time_eq)
  then show ?thesis using bpm_41_20 by (simp add: get_bpm_def py_truediv_def)
qed

lemma intervals_positive_step:
  assumes "0 \<le> r_peak_interval_counter st" and "\<forall>x\<in>set (r_peak_intervals st). 0 < x"
  shows "0 \<le> r_peak_interval_counter (detect_r_peaks_step st i)
         \<and> (\<forall>x\<in>set (r_peak_intervals (detect_r_peaks_step st i)). 0 < x)"
  using assms by (auto simp: detect_r_peaks_step_def Let_def sampling_time_def)

lemma intervals_positive_loop:
  assumes "0 \<le> r_peak_interval_counter st" and "\<forall>x\<in>set (r_peak_intervals st). 0 < x"
  shows "0 \<le> r_peak_interval_counter (detect_r_peaks_loop st is)
         \<and> (\<forall>x\<in>set (r_peak_intervals (detect_r_peaks_loop st is)). 0 < x)"
  using assms
proof (induction "is" arbitrary: st)
  case Nil
  then show ?case by simp
next
  case (Cons i "is")
  from intervals_positive_step [OF Cons.prems, of i] Cons.IH [of "detect_r_peaks_step st i"]
  show ?case by simp
qed

lemma rr_fixture_num:
  "py_round1 (py_mul (fl (fsum [800, 820, 810] / of_nat (length [800, 820, 810 :: int])))
      pow_10_minus_3) = fl (8 / 10)"
  by code_simp

lemma get_rr_interval_nearest_tenth:
  assumes ne: "r_peak_intervals st \<noteq> []"
    and pos: "\<forall>x\<in>set (r_peak_intervals st). 0 < x"
    and s: "sum_list (r_peak_intervals st) < 2 ^ 49"
  shows "\<exists>k. get_rr_interval st = Inr (fl (of_int k / 10))
           \<and> \<bar>of_int k / 10
                - of_int (sum_list (r_peak_intervals st))
                    / of_nat (length (r_peak_intervals st)) / 1000\<bar> \<le> (1::rat) / 20"
proof -
  define xs where "xs = r_peak_intervals st"
  define S n where "S = sum_list xs" and "n = int (length xs)"
  have n: "1 \<le> n" using ne by (cases xs) (simp_all add: n_def xs_def)
  have nS: "n \<le> S" using pos unfolding n_def S_def xs_def by (rule length_le_sum_list_int)
  have S14: "14 * S < 2 ^ 53" using s by (simp add: S_def xs_def)
  have pos': "\<forall>x\<in>set xs. 0 \<le> x" using pos by (auto simp: xs_def intro: less_imp_le)
  have "S < 2 ^ 53" using S14 n nS by simp
  then have fs: "fsum xs = of_int S" unfolding S_def using pos' by (intro fsum_exact) simp_all
  define k where
    "k = round_half_even (fl (fl (of_int S / of_int n) * fl (1 / 1000)) * 10)"
  have r: "get_rr_interval st = Inr (fl (of_int k / 10))"
    using ne by (simp add: get_rr_interval_def fmean_def py_round1_def py_mul_def
        pow_10_minus_3_def fs k_def xs_def [symmetric] n_def)
  have "\<bar>of_int k - of_int S / (100 * of_int n)\<bar> \<le> (1::rat) / 2"
    unfolding k_def using n nS S14 by (rule rr_core)
  then have "\<bar>(of_int k - of_int S / (100 * of_int n)) / 10\<bar> \<le> ((1::rat) / 2) / 10"
    by (simp only: abs_divide abs_numeral divide_le_cancel) simp
  moreover have "(of_int k - of_int S / (100 * of_int n)) / 10
      = (of_int k / 10 - of_int S / of_nat (length xs) / 1000 :: rat)"
    using n by (simp add: n_def field_simps)
  ultimately have "\<bar>of_int k / 10 - of_int S / of_nat (length xs) / 1000\<bar> \<le> (1::rat) / 20"
    by simp
  with r show ?thesis unfolding S_def xs_def by blast
qed

text \<open>
  C3 (mean RR interval). \<open>get_rr_interval\<close> raises (\<open>StatisticsError\<close>, from
  \<open>fmean\<close>) exactly when no interval is recorded. Otherwise, for positive intervals
  (the detector records no other, \<open>intervals_positive_loop\<close>) whose sum is below
  \<open>2 ^ 49\<close> milliseconds, it returns the float nearest to a one-decimal number
  \<open>k / 10\<close> that is a nearest one to the mean in seconds: the two differ by at most
  \<open>1 / 20\<close>. The intervals 800, 820, 810 give the float 0.8.
\<close>

theorem mean_rr_interval:
  "(get_rr_interval st = Inl StatisticsError \<longleftrightarrow> r_peak_intervals st = [])
   \<and> (isl (get_rr_interval st) \<longleftrightarrow> r_peak_intervals st = [])
   \<and> (r_peak_intervals st \<noteq> [] \<and> (\<forall>x\<in>set (r_peak_intervals st). 0 < x)
        \<and> sum_list (r_peak_intervals st) < 2 ^ 49 \<longrightarrow>
       (\<exists>k. get_rr_interval st = Inr (fl (of_int k / 10))
           \<and> \<bar>of_int k / 10
                - of_int (sum_list (r_peak_intervals st))
                    / of_nat (length (r_peak_intervals st)) / 1000\<bar> \<le> (1::rat) / 20))
   \<and> get_rr_interval (st\<lparr>r_peak_intervals := [800, 820, 810]\<rparr>) = Inr (fl (8 / 10))"
proof -
  have "get_rr_interval (st\<lparr>r_peak_intervals := [800, 820, 810]\<rparr>) = Inr (fl (8 / 10))"
    using rr_fixture_num by (simp add: get_rr_interval_def fmean_def)
  then show ?thesis
    using get_rr_interval_error_iff [of st] get_rr_interval_nearest_tenth [of st] by blast
qed

theorem mean_rr_interval_witness:
  "[800, 820, 810 :: int] \<noteq> [] \<and> (0::int) < 800 \<and> (0::int) < 820 \<and> (0::int) < 810
   \<and> sum_list [800, 820, 810 :: int] < 2 ^ 49
   \<and> get_rr_interval (init_window\<lparr>r_peak_intervals := [800, 820, 810]\<rparr>) = Inr (fl (8 / 10))
   \<and> \<bar>8 / 10 - of_int (sum_list [800, 820, 810]) / of_nat (length [800, 820, 810 :: int]) / 1000\<bar>
       \<le> (1::rat) / 20
   \<and> (\<exists>k. get_rr_interval (init_window\<lparr>r_peak_intervals := [800, 820, 810]\<rparr>)
             = Inr (fl (of_int k / 10))
          \<and> \<bar>of_int k / 10 - of_int (sum_list [800, 820, 810])
               / of_nat (length [800, 820, 810 :: int]) / 1000\<bar> \<le> (1::rat) / 20)"
proof -
  let ?s = "init_window\<lparr>r_peak_intervals := [800, 820, 810]\<rparr>"
  have h: "r_peak_intervals ?s \<noteq> [] \<and> (\<forall>x\<in>set (r_peak_intervals ?s). 0 < x)
        \<and> sum_list (r_peak_intervals ?s) < 2 ^ 49" by simp
  from mean_rr_interval [of ?s] h
  have "\<exists>k. get_rr_interval ?s = Inr (fl (of_int k / 10))
           \<and> \<bar>of_int k / 10 - of_int (sum_list (r_peak_intervals ?s))
                / of_nat (length (r_peak_intervals ?s)) / 1000\<bar> \<le> (1::rat) / 20"
    by blast
  moreover from mean_rr_interval [of ?s]
  have "get_rr_interval ?s = Inr (fl (8 / 10))" by simp
  ultimately show ?thesis by simp
qed

section \<open>Properties of the scrub window\<close>

lemma slider_jump_value_calculate [simp]:
  "slider_jump_value (calculate_slider_jump_value st)
     = fl (of_int (int (length (ecg_data st)) - int display_count) / of_int 100)"
  by (simp add: calculate_slider_jump_value_def slider_max_value_def)

lemma ecg_data_calculate_slider_jump_value [simp]:
  "ecg_data (calculate_slider_jump_value st) = ecg_data st"
  by (simp add: calculate_slider_jump_value_def)







section \<open>Properties of the controller\<close>




lemmas label_defs =
  calculate_and_update_label_values_def signal_processing_error_def stop_measurement_def
  write_serial_def switch_universal_button_def show_message_box_def
  is_health_data_ready_for_calculation_def Let_def

lemma calculate_preserves [simp]:
  "ecg_data (calculate_and_update_label_values st) = ecg_data st"
  "ydata (calculate_and_update_label_values st) = ydata st"
  "last_processed_index (calculate_and_update_label_values st) = last_processed_index st"
  "r_peak_intervals (calculate_and_update_label_values st) = r_peak_intervals st"
  "r_peak_detectable (calculate_and_update_label_values st) = r_peak_detectable st"
  "r_peak_interval_counter (calculate_and_update_label_values st) = r_peak_interval_counter st"
  "slider_shown (calculate_and_update_label_values st) = slider_shown st"
  "stack (calculate_and_update_label_values st) = stack st"
  by (simp_all add: label_defs split: sum.splits)







lemma stop_measurement_fields [simp]:
  "is_measurement_in_progress (stop_measurement st) = False"
  "timer_active (stop_measurement st) = False"
  "ecg_data (stop_measurement st) = ecg_data st"
  "r_peak_intervals (stop_measurement st) = r_peak_intervals st"
  "last_processed_index (stop_measurement st) = last_processed_index st"
  "universal_button (stop_measurement st) = BACK"
  by (simp_all add: stop_measurement_def write_serial_def switch_universal_button_def)

lemma initialize_slider_fields [simp]:
  "is_measurement_in_progress (initialize_slider st) = is_measurement_in_progress st"
  "timer_active (initialize_slider st) = timer_active st"
  "ecg_data (initialize_slider st) = ecg_data st"
  "r_peak_intervals (initialize_slider st) = r_peak_intervals st"
  "r_peak_detectable (initialize_slider st) = r_peak_detectable st"
  "r_peak_interval_counter (initialize_slider st) = r_peak_interval_counter st"
  "last_processed_index (initialize_slider st) = last_processed_index st"
  "last_time_health_data_calculated (initialize_slider st) = last_time_health_data_calculated st"
  "message_boxes (initialize_slider st) = message_boxes st"
  "stack (initialize_slider st) = stack st"
  "universal_button (initialize_slider st) = universal_button st"
  "slider_shown (initialize_slider st)"
  by (simp_all add: initialize_slider_def slider_action_def calculate_slider_jump_value_def
      split: prod.splits)

lemma process_fresh_data_fields [simp]:
  "is_measurement_in_progress (process_fresh_data st) = is_measurement_in_progress st"
  "timer_active (process_fresh_data st) = timer_active st"
  "last_time_health_data_calculated (process_fresh_data st) = last_time_health_data_calculated st"
proof -
  have "is_measurement_in_progress (detect_r_peaks_loop s is) = is_measurement_in_progress s
      \<and> timer_active (detect_r_peaks_loop s is) = timer_active s
      \<and> last_time_health_data_calculated (detect_r_peaks_loop s is)
          = last_time_health_data_calculated s" for s "is"
    by (induction "is" arbitrary: s) (simp_all add: detect_r_peaks_step_def Let_def)
  then show "is_measurement_in_progress (process_fresh_data st) = is_measurement_in_progress st"
    "timer_active (process_fresh_data st) = timer_active st"
    "last_time_health_data_calculated (process_fresh_data st) = last_time_health_data_calculated st"
    by (simp_all add: process_fresh_data_eq detect_r_peaks_def)
qed





lemma reset_fields [simp]:
  "ecg_data (reset_measurement_data_and_graph_ui st) = []"
  "r_peak_intervals (reset_measurement_data_and_graph_ui st) = []"
  "last_processed_index (reset_measurement_data_and_graph_ui st) = 0"
  "r_peak_detectable (reset_measurement_data_and_graph_ui st)"
  "r_peak_interval_counter (reset_measurement_data_and_graph_ui st) = 0"
  "is_measurement_in_progress (reset_measurement_data_and_graph_ui st)
     = is_measurement_in_progress st"
  "message_boxes (reset_measurement_data_and_graph_ui st) = message_boxes st"
  by (simp_all add: reset_measurement_data_and_graph_ui_def reset_labels_def reset_ydata_def)



lemma init_window_fields [simp]:
  "message_boxes init_window = []"
  "\<not> is_measurement_in_progress init_window"
  "stack init_window = HOME"
  "ecg_data init_window = []"
  by (simp_all add: init_window_def reset_ydata_def)


lemma read_serial_step_absorbs:
  "read_serial_step ReadFails st = st"
  "read_serial_step NoData st = st"
  "read_serial_step BadToken st = st"
  "ecg_data (read_serial_step (Sample v) st) =
     (if is_measurement_in_progress st \<and> ser st then ecg_data st @ [v] else ecg_data st)"
  by (simp_all add: read_serial_step_def)

text \<open>
  C10 (no unhandled exception). The reading loop absorbs what \<open>readline\<close> and
  \<open>int\<close> raise (\<open>read_serial_step_absorbs\<close>), and a failure of the metrics is
  caught and reported (\<open>calculate_in_progress\<close>, \<open>tick_termination\<close>). But a file
  that cannot be opened or read makes \<open>load_file\<close> raise: the \<open>except\<close> sets the
  error code, and the next statement, \<open>len(file_content)\<close>, reads a variable that was
  never assigned. Neither \<open>load_file\<close> nor \<open>load_button_action\<close> catches it.
\<close>

theorem load_file_unreadable:
  "load_file (Some ''ecg.txt'') Unreadable st = Inl UnboundLocalError
   \<and> load_button_action (Some ''ecg.txt'') Unreadable st = Inl UnboundLocalError"
  by (simp add: load_file_def load_button_action_def)

lemma those_map_Some [simp]: "those (map Some xs) = Some xs"
  by (induction xs) simp_all


lemma detect_r_peaks_fields [simp]:
  "is_measurement_in_progress (detect_r_peaks st) = is_measurement_in_progress st"
  "message_boxes (detect_r_peaks st) = message_boxes st"
  "stack (detect_r_peaks st) = stack st"
  "slider_shown (detect_r_peaks st) = slider_shown st"
  "universal_button (detect_r_peaks st) = universal_button st"
proof -
  have "is_measurement_in_progress (detect_r_peaks_loop s is) = is_measurement_in_progress s
      \<and> message_boxes (detect_r_peaks_loop s is) = message_boxes s
      \<and> stack (detect_r_peaks_loop s is) = stack s
      \<and> slider_shown (detect_r_peaks_loop s is) = slider_shown s
      \<and> universal_button (detect_r_peaks_loop s is) = universal_button s" for s "is"
    by (induction "is" arbitrary: s) (simp_all add: detect_r_peaks_step_def Let_def)
  then show "is_measurement_in_progress (detect_r_peaks st) = is_measurement_in_progress st"
    "message_boxes (detect_r_peaks st) = message_boxes st"
    "stack (detect_r_peaks st) = stack st"
    "slider_shown (detect_r_peaks st) = slider_shown st"
    "universal_button (detect_r_peaks st) = universal_button st"
    by (simp_all add: detect_r_peaks_def)
qed




lemma signal_processing_error_fields [simp]:
  "message_boxes (signal_processing_error st) = message_boxes st @
     [(''Signal processing error'',
       ''The measured signal does not meet the requirements of a real ecg signal.'')]"
  "last_time_health_data_calculated (signal_processing_error st)
     = last_time_health_data_calculated st"
  "rr_interval_label (signal_processing_error st) = rr_interval_label st"
  "bpm_label (signal_processing_error st) = bpm_label st"
  by (simp_all add: signal_processing_error_def stop_measurement_def write_serial_def
      switch_universal_button_def show_message_box_def)









end
